theory Spec2Isabelle
  imports Main "HOL-Library.Word" "HOL-Library.AList"
begin

section \<open>The connection registry of internal/driver/cluster/cluster.go\<close>

text \<open>
  The registry (\<^verbatim>\<open>type cluster struct\<close>) maps node identifiers to entries, each
  holding a connection and the handle under which the balancer knows it. The packages
  \<^verbatim>\<open>endpoint\<close>, \<^verbatim>\<open>entry\<close>, \<^verbatim>\<open>info\<close>, \<^verbatim>\<open>conn\<close>, \<^verbatim>\<open>balancer\<close>, \<^verbatim>\<open>repeater\<close>
  and \<^verbatim>\<open>state\<close> are imported by the file and not part of it: their values are
  modelled by the fields and calls the file uses, their behaviour is a parameter
  (\<open>ports\<close> below).
\<close>

subsection \<open>Values\<close>

text \<open>
  \<^verbatim>\<open>Endpoint.ID\<close> and \<^verbatim>\<open>endpoint.NodeID\<close> are declared in package \<^verbatim>\<open>endpoint\<close>, outside
  the file: a node identifier is a uint32, and \<open>uint\<close> reads its numeric value.
  \<^verbatim>\<open>LoadFactor\<close> is a float32 that is only copied: the model keeps its 32 bits.
\<close>

type_synonym NodeID = "32 word"
type_synonym conn = nat
type_synonym element = nat
type_synonym chan = nat

record endpoint =
  ID :: "32 word"
  LoadFactor :: "32 word"
  Local :: bool

text \<open>
  Modelled from the spec: \<^verbatim>\<open>Endpoint.NodeID()\<close>, the registry's key, is the endpoint's
  identifier (section 3: an endpoint is comparable and sortable solely by NodeID).
\<close>

definition NodeID :: "endpoint \<Rightarrow> NodeID" where
  "NodeID e = ID e"

record info =
  Info_LoadFactor :: "32 word"
  Info_Local :: bool

text \<open>
  \<^verbatim>\<open>conn.Conn\<close> and the balancer's handle are interface values: a reference to an
  object, or nil (\<open>None\<close>). Calling a method on a nil interface value is a run-time
  panic.
\<close>

record entry =
  Info :: info
  Conn :: "conn option"
  Handle :: "element option"

text \<open>
  \<^verbatim>\<open>state.State\<close>: the file names \<^verbatim>\<open>state.Online\<close> and \<^verbatim>\<open>state.Banned\<close>; every other
  value of the enumeration is an \<open>OtherState\<close>.
\<close>

datatype State = Online | Banned | OtherState nat

datatype error =
    ErrClusterClosed
  | ErrClusterEmpty
  | ErrUnknownEndpoint
  | ErrNilBalancerElement
  | ErrUnknownBalancerElement
  | Errorf string error

text \<open>A call returns, or it panics with a message.\<close>

datatype 'r outcome = Return 'r | Panic string

definition nil_dereference :: string where
  "nil_dereference = ''runtime error: invalid memory address or nil pointer dereference''"

definition pessimize_failed :: string where
  "pessimize_failed = ''cluster: pessimize failed: %w''"

text \<open>
  What a connection object holds for this file: the state behind
  \<^verbatim>\<open>Runtime().GetState()\<close>, and how often \<^verbatim>\<open>Close\<close> was called on it. A repeater
  (the rediscovery trigger) counts the calls of \<^verbatim>\<open>Force\<close> and \<^verbatim>\<open>Stop\<close>.
\<close>

record conn_obj =
  runtime_state :: State
  close_calls :: nat

record repeater =
  force_calls :: nat
  stop_calls :: nat

subsection \<open>The collaborators\<close>

text \<open>
  The balancer is an interface (\<^verbatim>\<open>Next\<close>, \<^verbatim>\<open>Update\<close>, \<^verbatim>\<open>Contains\<close>) over a state \<open>'b\<close>
  of its own. \<^verbatim>\<open>entry.InsertInto\<close> and \<^verbatim>\<open>entry.RemoveFrom\<close> have a pointer receiver
  and a body outside the file: they return the entry and the balancer as they leave
  them, or panic (\<open>Inl\<close> the message). \<open>new_conn_State\<close> is the runtime state of a
  connection that \<^verbatim>\<open>conn.New\<close> has just built.
\<close>

record 'b ports =
  balancer_Next :: "'b \<Rightarrow> conn option \<times> 'b"
  balancer_Update :: "'b \<Rightarrow> element \<Rightarrow> info \<Rightarrow> 'b"
  balancer_Contains :: "'b \<Rightarrow> element \<Rightarrow> bool"
  entry_InsertInto :: "entry \<Rightarrow> 'b \<Rightarrow> string + entry \<times> 'b"
  entry_RemoveFrom :: "entry \<Rightarrow> 'b \<Rightarrow> string + entry \<times> 'b"
  new_conn_State :: State

subsection \<open>The registry\<close>

text \<open>
  The fields of \<^verbatim>\<open>cluster\<close> (\<open>trace\<close>, \<open>dial\<close> and the mutex left out), followed by the
  objects it refers to: the connections by reference, and the channels that were
  closed. \<open>index\<close> is a Go map: an association list with \<open>map_of\<close>, \<open>AList.update\<close>
  and \<open>AList.delete\<close>, and \<open>length\<close> for \<^verbatim>\<open>len\<close>.
\<close>

record 'b cluster =
  balancer :: 'b
  explorer :: "repeater option"
  index :: "(NodeID \<times> entry) list"
  ready :: int
  wait :: "chan option"
  closed :: bool
  conns :: "conn \<Rightarrow> conn_obj"
  next_conn :: conn
  closed_chans :: "chan list"

definition New :: "'b \<Rightarrow> 'b cluster" where
  "New b =
    \<lparr>balancer = b, explorer = None, index = [], ready = 0, wait = None, closed = False,
     conns = (\<lambda>_. \<lparr>runtime_state = OtherState 0, close_calls = 0\<rparr>), next_conn = 0,
     closed_chans = []\<rparr>"

definition Force :: "'b cluster \<Rightarrow> unit outcome \<times> 'b cluster" where
  "Force c =
    (case explorer c of
       None \<Rightarrow> (Panic nil_dereference, c)
     | Some ex \<Rightarrow> (Return (), c\<lparr>explorer := Some (ex\<lparr>force_calls := force_calls ex + 1\<rparr>)\<rparr>))"

definition SetExplorer :: "repeater option \<Rightarrow> 'b cluster \<Rightarrow> 'b cluster" where
  "SetExplorer r c = c\<lparr>explorer := r\<rparr>"

text \<open>
  Modelled from the spec: the calls on a connection, \<^verbatim>\<open>conn.New\<close> (section 4.1: builds
  a new Connection for the endpoint), \<^verbatim>\<open>Runtime().SetState\<close> (marks the connection's
  runtime health) and \<^verbatim>\<open>Conn.Close\<close>.
\<close>

definition conn_New :: "'b ports \<Rightarrow> 'b cluster \<Rightarrow> conn \<times> 'b cluster" where
  "conn_New p c =
    (next_conn c,
     c\<lparr>conns := (conns c)(next_conn c := \<lparr>runtime_state = new_conn_State p, close_calls = 0\<rparr>),
       next_conn := Suc (next_conn c)\<rparr>)"

definition SetState :: "conn \<Rightarrow> State \<Rightarrow> 'b cluster \<Rightarrow> 'b cluster" where
  "SetState r s c = c\<lparr>conns := (conns c)(r := (conns c r)\<lparr>runtime_state := s\<rparr>)\<rparr>"

definition GetState :: "'b cluster \<Rightarrow> conn \<Rightarrow> State" where
  "GetState c r = runtime_state (conns c r)"

definition conn_Close :: "conn \<Rightarrow> 'b cluster \<Rightarrow> 'b cluster" where
  "conn_Close r c =
    c\<lparr>conns := (conns c)(r := (conns c r)\<lparr>close_calls := Suc (close_calls (conns c r))\<rparr>)\<rparr>"

text \<open>\<^verbatim>\<open>close(ch)\<close> panics on a channel that is closed already.\<close>

definition close_chan :: "chan \<Rightarrow> 'b cluster \<Rightarrow> unit outcome \<times> 'b cluster" where
  "close_chan ch c =
    (if ch \<in> set (closed_chans c) then (Panic ''close of closed channel'', c)
     else (Return (), c\<lparr>closed_chans := ch # closed_chans c\<rparr>))"

text \<open>The loop of \<^verbatim>\<open>Close\<close> over the detached map: every entry with a connection closes it.\<close>

fun close_conns :: "(NodeID \<times> entry) list \<Rightarrow> 'b cluster \<Rightarrow> 'b cluster" where
  "close_conns [] c = c"
| "close_conns ((k, e) # es) c =
    close_conns es (case Conn e of None \<Rightarrow> c | Some r \<Rightarrow> conn_Close r c)"

definition Close :: "'b cluster \<Rightarrow> error option outcome \<times> 'b cluster" where
  "Close c =
    (if closed c then (Return None, c)
     else
       let c1 = (case explorer c of
                   None \<Rightarrow> c
                 | Some ex \<Rightarrow> c\<lparr>explorer := Some (ex\<lparr>stop_calls := stop_calls ex + 1\<rparr>)\<rparr>);
           c2 = c1\<lparr>closed := True, wait := None, index := []\<rparr>
       in case wait c of
            None \<Rightarrow> (Return None, close_conns (index c) c2)
          | Some ch \<Rightarrow>
              (case close_chan ch c2 of
                 (Panic m, c3) \<Rightarrow> (Panic m, c3)
               | (Return u, c3) \<Rightarrow> (Return None, close_conns (index c) c3)))"

text \<open>
  \<^verbatim>\<open>Get\<close>: the argument is what \<^verbatim>\<open>public.ContextNodeID(ctx)\<close> yields, converted to a
  key. In the last branch \<^verbatim>\<open>onDone(conn.Endpoint(), err)\<close> evaluates
  \<^verbatim>\<open>conn.Endpoint()\<close> before the call; the trace callbacks themselves have no effect.
\<close>

definition Get ::
  "'b ports \<Rightarrow> NodeID option \<Rightarrow> 'b cluster \<Rightarrow> (conn option \<times> error option) outcome \<times> 'b cluster"
where
  "Get p ctxNodeID c =
    (if closed c then (Return (None, Some ErrClusterClosed), c)
     else
       case (case ctxNodeID of None \<Rightarrow> None | Some nodeID \<Rightarrow> map_of (index c) nodeID) of
         Some e \<Rightarrow> (Return (Conn e, None), c)
       | None \<Rightarrow>
           (let (cn, b) = balancer_Next p (balancer c);
                c' = c\<lparr>balancer := b\<rparr>;
                err = (if cn = None then Some ErrClusterEmpty else None)
            in case cn of
                 None \<Rightarrow> (Panic nil_dereference, c')
               | Some r \<Rightarrow> (Return (cn, err), c')))"

text \<open>
  \<^verbatim>\<open>Insert\<close>: the connection is built before the lock is taken; the deferred function
  closes the channel taken out of \<open>wait\<close>.
\<close>

definition Insert :: "'b ports \<Rightarrow> endpoint \<Rightarrow> 'b cluster \<Rightarrow> unit outcome \<times> 'b cluster" where
  "Insert p ep c0 =
    (let (cn, c) = conn_New p c0 in
     if closed c then (Return (), c)
     else if map_of (index c) (NodeID ep) \<noteq> None
       then (Panic ''ydb: can't insert already existing endpoint'', c)
     else
       let e = \<lparr>Info = \<lparr>Info_LoadFactor = LoadFactor ep, Info_Local = Local ep\<rparr>,
                Conn = Some cn, Handle = None\<rparr>
       in case entry_InsertInto p e (balancer c) of
            Inl m \<Rightarrow> (Panic m, c)
          | Inr (e', b) \<Rightarrow>
              (let c1 = c\<lparr>balancer := b, ready := ready c + 1, wait := None,
                          index := AList.update (NodeID ep) e' (index c)\<rparr>
               in case wait c of
                    None \<Rightarrow> (Return (), c1)
                  | Some ch \<Rightarrow> close_chan ch c1))"

definition Update :: "'b ports \<Rightarrow> endpoint \<Rightarrow> 'b cluster \<Rightarrow> unit outcome \<times> 'b cluster" where
  "Update p ep c =
    (if closed c then (Return (), c)
     else
       case map_of (index c) (NodeID ep) of
         None \<Rightarrow> (Panic ''ydb: can't update not-existing endpoint'', c)
       | Some e \<Rightarrow>
           (case Conn e of
              None \<Rightarrow> (Panic ''ydb: cluster entry with nil conn'', c)
            | Some r \<Rightarrow>
                (let e' = e\<lparr>Info := \<lparr>Info_LoadFactor = LoadFactor ep, Info_Local = Local ep\<rparr>\<rparr>;
                     c1 = SetState r Online c;
                     c2 = c1\<lparr>index := AList.update (NodeID ep) e' (index c1)\<rparr>
                 in case Handle e' of
                      None \<Rightarrow> (Return (), c2)
                    | Some h \<Rightarrow>
                        (Return (), c2\<lparr>balancer := balancer_Update p (balancer c2) h (Info e')\<rparr>))))"

text \<open>
  \<^verbatim>\<open>Remove\<close>: after the map is updated and the lock released, the connection is closed
  if there is one, and \<^verbatim>\<open>onDone(entry.Conn.Runtime().GetState())\<close> evaluates its
  argument on the same \<^verbatim>\<open>entry.Conn\<close>.
\<close>

definition Remove :: "'b ports \<Rightarrow> endpoint \<Rightarrow> 'b cluster \<Rightarrow> unit outcome \<times> 'b cluster" where
  "Remove p ep c =
    (if closed c then (Return (), c)
     else
       case map_of (index c) (NodeID ep) of
         None \<Rightarrow> (Panic ''ydb: can't remove not-existing endpoint'', c)
       | Some e \<Rightarrow>
           (case entry_RemoveFrom p e (balancer c) of
              Inl m \<Rightarrow> (Panic m, c)
            | Inr (e', b) \<Rightarrow>
                (let c1 = c\<lparr>balancer := b, ready := ready c - 1,
                            index := AList.delete (NodeID ep) (index c)\<rparr>;
                     c2 = (case Conn e' of None \<Rightarrow> c1 | Some r \<Rightarrow> conn_Close r c1)
                 in case Conn e' of
                      None \<Rightarrow> (Panic nil_dereference, c2)
                    | Some r \<Rightarrow> (Return (), c2))))"

text \<open>The count of \<^verbatim>\<open>Pessimize\<close>: entries with a connection whose state is Online.\<close>

definition is_online :: "'b cluster \<Rightarrow> entry \<Rightarrow> bool" where
  "is_online c e = (case Conn e of None \<Rightarrow> False | Some r \<Rightarrow> GetState c r = Online)"

definition online_count :: "'b cluster \<Rightarrow> nat" where
  "online_count c = length (filter (\<lambda>(k, e). is_online c e) (index c))"

definition Pessimize :: "'b ports \<Rightarrow> endpoint \<Rightarrow> 'b cluster \<Rightarrow> error option outcome \<times> 'b cluster" where
  "Pessimize p ep c =
    (if closed c then (Return (Some (Errorf pessimize_failed ErrClusterClosed)), c)
     else
       case map_of (index c) (NodeID ep) of
         None \<Rightarrow> (Return (Some (Errorf pessimize_failed ErrUnknownEndpoint)), c)
       | Some e \<Rightarrow>
           (case Handle e of
              None \<Rightarrow> (Return (Some (Errorf pessimize_failed ErrNilBalancerElement)), c)
            | Some h \<Rightarrow>
                if \<not> balancer_Contains p (balancer c) h
                then (Return (Some (Errorf pessimize_failed ErrUnknownBalancerElement)), c)
                else
                  (case Conn e of
                     None \<Rightarrow> (Panic nil_dereference, c)
                   | Some r \<Rightarrow>
                       (let c1 = SetState r Banned c in
                        case explorer c1 of
                          None \<Rightarrow> (Return None, c1)
                        | Some ex \<Rightarrow>
                            if online_count c1 * 2 < length (index c1)
                            then (Return None,
                                  c1\<lparr>explorer := Some (ex\<lparr>force_calls := force_calls ex + 1\<rparr>)\<rparr>)
                            else (Return None, c1)))))"

subsection \<open>Sequences of calls\<close>

datatype call =
    CallInsert endpoint
  | CallUpdate endpoint
  | CallRemove endpoint
  | CallGet "NodeID option"
  | CallPessimize endpoint
  | CallClose
  | CallSetExplorer "repeater option"
  | CallForce

fun step :: "'b ports \<Rightarrow> call \<Rightarrow> 'b cluster \<Rightarrow> 'b cluster" where
  "step p (CallInsert ep) c = snd (Insert p ep c)"
| "step p (CallUpdate ep) c = snd (Update p ep c)"
| "step p (CallRemove ep) c = snd (Remove p ep c)"
| "step p (CallGet h) c = snd (Get p h c)"
| "step p (CallPessimize ep) c = snd (Pessimize p ep c)"
| "step p CallClose c = snd (Close c)"
| "step p (CallSetExplorer r) c = SetExplorer r c"
| "step p CallForce c = snd (Force c)"

fun run :: "'b ports \<Rightarrow> call list \<Rightarrow> 'b cluster \<Rightarrow> 'b cluster" where
  "run p [] c = c"
| "run p (x # xs) c = run p xs (step p x c)"

subsection \<open>A balancer to run the registry with\<close>

text \<open>
  Modelled from the spec: a Balancer Port (sections 2 and 6) with \<^verbatim>\<open>entry.InsertInto\<close>
  and \<^verbatim>\<open>entry.RemoveFrom\<close> (section 3, invariant 2: the handle is set exactly while the
  entry is registered), to run the operations on concrete registries. It keeps the
  registered connections in a list, hands out the connection's reference as its handle
  and selects the first one.
\<close>

type_synonym listed = "(element \<times> conn \<times> info) list"

definition listed_ports :: "State \<Rightarrow> listed ports" where
  "listed_ports s0 =
    \<lparr>balancer_Next = (\<lambda>b. (case b of [] \<Rightarrow> None | (h, r, i) # rest \<Rightarrow> Some r, b)),
     balancer_Update = (\<lambda>b h i. map (\<lambda>(h', r, i'). if h' = h then (h', r, i) else (h', r, i')) b),
     balancer_Contains = (\<lambda>b h. h \<in> set (map fst b)),
     entry_InsertInto = (\<lambda>e b.
       case Conn e of
         None \<Rightarrow> Inl ''ydb: can't insert nil Conn into balancer''
       | Some r \<Rightarrow> Inr (e\<lparr>Handle := Some r\<rparr>, b @ [(r, r, Info e)])),
     entry_RemoveFrom = (\<lambda>e b.
       case Handle e of
         None \<Rightarrow> Inl ''ydb: no Handle to remove from balancer''
       | Some h \<Rightarrow> Inr (e\<lparr>Handle := None\<rparr>, filter (\<lambda>(h', r, i). h' \<noteq> h) b)),
     new_conn_State = s0\<rparr>"

definition node :: "32 word \<Rightarrow> endpoint" where
  "node n = \<lparr>ID = n, LoadFactor = 0, Local = False\<rparr>"

definition no_calls :: repeater where
  "no_calls = \<lparr>force_calls = 0, stop_calls = 0\<rparr>"

text \<open>
  The registry after \<^verbatim>\<open>New\<close>, \<^verbatim>\<open>SetExplorer\<close> and one \<^verbatim>\<open>Insert\<close> per identifier, where
  a new connection has state \<open>s0\<close>.
\<close>

definition registry_of :: "State \<Rightarrow> 32 word list \<Rightarrow> listed cluster" where
  "registry_of s0 ns =
    run (listed_ports s0) (map (\<lambda>n. CallInsert (node n)) ns) (SetExplorer (Some no_calls) (New []))"

definition one_node :: "listed cluster" where
  "one_node = registry_of Online [1]"

definition pessimize_all :: "State \<Rightarrow> 32 word list \<Rightarrow> listed cluster \<Rightarrow> listed cluster" where
  "pessimize_all s0 ns c = run (listed_ports s0) (map (\<lambda>n. CallPessimize (node n)) ns) c"

text \<open>The same registry after one \<^verbatim>\<open>Update\<close> per identifier.\<close>

definition updated_registry :: "State \<Rightarrow> 32 word list \<Rightarrow> listed cluster" where
  "updated_registry s0 ns =
    run (listed_ports s0) (map (\<lambda>n. CallUpdate (node n)) ns) (registry_of s0 ns)"

text \<open>Every entry of the mapping holds a connection.\<close>

definition has_conns :: "'b cluster \<Rightarrow> bool" where
  "has_conns c = list_all (\<lambda>(k, e). Conn e \<noteq> None) (index c)"

section \<open>Comparing, sorting and diffing endpoints\<close>

text \<open>
  Go's \<^verbatim>\<open>int\<close> has 32 or 64 bits, by the target of the build.
\<close>

datatype arch = Int32 | Int64

text \<open>
  The conversion \<^verbatim>\<open>int(x)\<close> of an int64: the value itself where \<^verbatim>\<open>int\<close> has 64 bits, its
  low 32 bits read as a signed number where it has 32.
\<close>

definition to_int :: "arch \<Rightarrow> 64 word \<Rightarrow> int" where
  "to_int w x = (case w of Int64 \<Rightarrow> sint x | Int32 \<Rightarrow> sint (ucast x :: 32 word))"

text \<open>
  \<^verbatim>\<open>int(int64(a.ID) - int64(b.ID))\<close>: \<^verbatim>\<open>int64(.)\<close> extends the uint32 with zeros
  (\<open>ucast\<close>), and the subtraction is that of int64.
\<close>

definition compareEndpoints :: "arch \<Rightarrow> endpoint \<Rightarrow> endpoint \<Rightarrow> int" where
  "compareEndpoints w a b = to_int w (ucast (ID a) - ucast (ID b))"

text \<open>
  \<^verbatim>\<open>sort.Slice\<close> belongs to Go's library and is a parameter: \<^verbatim>\<open>SortEndpoints\<close> hands it
  the slice and the function \<^verbatim>\<open>less\<close>, which compares the two elements at the given
  positions by \<^verbatim>\<open>compareEndpoints(es[i], es[j]) < 0\<close>.
\<close>

definition SortEndpoints ::
  "((endpoint \<Rightarrow> endpoint \<Rightarrow> bool) \<Rightarrow> endpoint list \<Rightarrow> endpoint list) \<Rightarrow> arch \<Rightarrow>
    endpoint list \<Rightarrow> endpoint list"
where
  "SortEndpoints sort_Slice w es = sort_Slice (\<lambda>x y. compareEndpoints w x y < 0) es"

text \<open>
  The calls that \<^verbatim>\<open>diffslice\<close> makes of its callbacks \<^verbatim>\<open>eq\<close>, \<^verbatim>\<open>add\<close> and \<^verbatim>\<open>del\<close>, in
  order. The main loop is \<open>diffslice_from\<close>, the two loops after it are \<open>del_tail\<close> and
  \<open>add_tail\<close>; the indices start at 0 and only grow, so they are natural numbers.
\<close>

datatype emit = Eq nat nat | Add nat nat | Del nat nat

function del_tail :: "nat \<Rightarrow> nat \<Rightarrow> nat \<Rightarrow> emit list" where
  "del_tail a i j = (if i < a then Del i j # del_tail a (i + 1) j else [])"
  by pat_completeness auto
termination
  by (relation "measure (\<lambda>(a, i, j). a - i)") auto

function add_tail :: "nat \<Rightarrow> nat \<Rightarrow> nat \<Rightarrow> emit list" where
  "add_tail b i j = (if j < b then Add i j # add_tail b i (j + 1) else [])"
  by pat_completeness auto
termination
  by (relation "measure (\<lambda>(b, i, j). b - j)") auto

function diffslice_from ::
  "nat \<Rightarrow> nat \<Rightarrow> (nat \<Rightarrow> nat \<Rightarrow> int) \<Rightarrow> nat \<Rightarrow> nat \<Rightarrow> emit list"
where
  "diffslice_from a b cmp i j =
    (if i < a \<and> j < b then
       (if cmp i j < 0 then Del i j # diffslice_from a b cmp (i + 1) j
        else if cmp i j > 0 then Add i j # diffslice_from a b cmp i (j + 1)
        else Eq i j # diffslice_from a b cmp (i + 1) (j + 1))
     else del_tail a i j @ add_tail b (if i < a then a else i) j)"
  by pat_completeness auto
termination
  by (relation "measure (\<lambda>(a, b, cmp, i, j). (a - i) + (b - j))") auto

definition diffslice :: "nat \<Rightarrow> nat \<Rightarrow> (nat \<Rightarrow> nat \<Rightarrow> int) \<Rightarrow> emit list" where
  "diffslice a b cmp = diffslice_from a b cmp 0 0"

definition DiffEndpoints :: "arch \<Rightarrow> endpoint list \<Rightarrow> endpoint list \<Rightarrow> emit list" where
  "DiffEndpoints w cur nxt =
    diffslice (length cur) (length nxt) (\<lambda>i j. compareEndpoints w (cur ! i) (nxt ! j))"

text \<open>
  The two-pointer merge on the lists themselves, with the positions of their heads: the
  heads are compared by \<open>cmp\<close>, and what is left of either side is emitted whole.
\<close>

fun merge_by ::
  "(endpoint \<Rightarrow> endpoint \<Rightarrow> int) \<Rightarrow> nat \<Rightarrow> nat \<Rightarrow> endpoint list \<Rightarrow> endpoint list \<Rightarrow> emit list"
where
  "merge_by cmp i j [] [] = []"
| "merge_by cmp i j (x # xs) [] = Del i j # merge_by cmp (i + 1) j xs []"
| "merge_by cmp i j [] (y # ys) = Add i j # merge_by cmp i (j + 1) [] ys"
| "merge_by cmp i j (x # xs) (y # ys) =
    (if cmp x y < 0 then Del i j # merge_by cmp (i + 1) j xs (y # ys)
     else if cmp x y > 0 then Add i j # merge_by cmp i (j + 1) (x # xs) ys
     else Eq i j # merge_by cmp (i + 1) (j + 1) xs ys)"

text \<open>
  The merge as section 4.4 of the spec words it, on the two lists and the positions of
  their heads: equal keys are matched, the smaller key is removed (current side) or
  added (next side), and what is left of either side is emitted whole.
\<close>

fun merge_spec :: "nat \<Rightarrow> nat \<Rightarrow> endpoint list \<Rightarrow> endpoint list \<Rightarrow> emit list" where
  "merge_spec i j [] [] = []"
| "merge_spec i j (x # xs) [] = Del i j # merge_spec (i + 1) j xs []"
| "merge_spec i j [] (y # ys) = Add i j # merge_spec i (j + 1) [] ys"
| "merge_spec i j (x # xs) (y # ys) =
    (if ID x = ID y then Eq i j # merge_spec (i + 1) (j + 1) xs ys
     else if ID x < ID y then Del i j # merge_spec (i + 1) j xs (y # ys)
     else Add i j # merge_spec i (j + 1) (x # xs) ys)"

definition is_Eq :: "emit \<Rightarrow> bool" where
  "is_Eq e = (case e of Eq i j \<Rightarrow> True | _ \<Rightarrow> False)"

definition is_Add :: "emit \<Rightarrow> bool" where
  "is_Add e = (case e of Add i j \<Rightarrow> True | _ \<Rightarrow> False)"

definition is_Del :: "emit \<Rightarrow> bool" where
  "is_Del e = (case e of Del i j \<Rightarrow> True | _ \<Rightarrow> False)"

section \<open>The registry: auxiliary facts\<close>

declare del_tail.simps [simp del] add_tail.simps [simp del] diffslice_from.simps [simp del]

lemmas registry_evals =
  registry_of_def updated_registry_def pessimize_all_def listed_ports_def New_def
  SetExplorer_def no_calls_def Insert_def Update_def conn_New_def node_def NodeID_def
  Pessimize_def SetState_def GetState_def online_count_def is_online_def Let_def

lemma conn_New_fields:
  "closed (snd (conn_New p c)) = closed c"
  "index (snd (conn_New p c)) = index c"
  "ready (snd (conn_New p c)) = ready c"
  "balancer (snd (conn_New p c)) = balancer c"
  by (simp_all add: conn_New_def)

lemma Insert_closed: "closed c \<Longrightarrow> Insert p ep c = (Return (), snd (conn_New p c))"
  by (simp add: Insert_def conn_New_def)

lemma step_closed: "closed c \<Longrightarrow> closed (step p x c)"
  by (cases x)
    (simp_all add: Insert_closed conn_New_fields Update_def Remove_def Get_def Pessimize_def
      Close_def SetExplorer_def Force_def split: option.splits)

lemma run_closed: "closed c \<Longrightarrow> closed (run p xs c)"
  by (induction xs arbitrary: c) (simp_all add: step_closed)

lemma closed_calls:
  assumes "closed c"
  shows "fst (Insert p ep c) = Return ()"
    and "index (snd (Insert p ep c)) = index c"
    and "ready (snd (Insert p ep c)) = ready c"
    and "balancer (snd (Insert p ep c)) = balancer c"
    and "Update p ep c = (Return (), c)"
    and "Remove p ep c = (Return (), c)"
    and "Get p h c = (Return (None, Some ErrClusterClosed), c)"
    and "Pessimize p ep c = (Return (Some (Errorf pessimize_failed ErrClusterClosed)), c)"
  using assms
  by (simp_all add: Insert_closed conn_New_fields Update_def Remove_def Get_def Pessimize_def)

text \<open>The loop of \<^verbatim>\<open>Close\<close> changes the connections only.\<close>

lemma close_conns_frame: "close_conns es c = c\<lparr>conns := conns (close_conns es c)\<rparr>"
proof (induction es arbitrary: c)
  case Nil
  then show ?case by simp
next
  case (Cons x es)
  obtain k e where x: "x = (k, e)" by (cases x)
  show ?case
  proof (cases "Conn e")
    case None
    then show ?thesis using Cons.IH[of c] x by simp
  next
    case (Some r)
    have "close_conns es (conn_Close r c) =
        (conn_Close r c)\<lparr>conns := conns (close_conns es (conn_Close r c))\<rparr>"
      by (rule Cons.IH)
    then show ?thesis using x Some by (simp add: conn_Close_def)
  qed
qed

lemma close_conns_calls:
  "close_calls (conns (close_conns es c) r) =
     close_calls (conns c r) + count_list (map (Conn \<circ> snd) es) (Some r)"
  by (induction es arbitrary: c) (auto simp: conn_Close_def split: option.splits)

lemma close_conns_fields:
  "closed (close_conns es c) = closed c"
  "wait (close_conns es c) = wait c"
  "index (close_conns es c) = index c"
  "explorer (close_conns es c) = explorer c"
  "closed_chans (close_conns es c) = closed_chans c"
  "balancer (close_conns es c) = balancer c"
  "ready (close_conns es c) = ready c"
  by (subst close_conns_frame, simp)+

lemma Close_closes: "closed (snd (Close c))"
  by (simp add: Close_def Let_def close_chan_def close_conns_fields split: option.splits)

lemma Close_first:
  assumes "\<not> closed c" and "\<forall>ch. wait c = Some ch \<longrightarrow> ch \<notin> set (closed_chans c)"
  shows "fst (Close c) = Return None"
    and "wait (snd (Close c)) = None"
    and "index (snd (Close c)) = []"
    and "explorer (snd (Close c)) =
           map_option (\<lambda>ex. ex\<lparr>stop_calls := stop_calls ex + 1\<rparr>) (explorer c)"
    and "closed_chans (snd (Close c)) =
           (case wait c of None \<Rightarrow> [] | Some ch \<Rightarrow> [ch]) @ closed_chans c"
    and "close_calls (conns (snd (Close c)) r) =
           close_calls (conns c r) + count_list (map (Conn \<circ> snd) (index c)) (Some r)"
  using assms
  by (auto simp: Close_def Let_def close_chan_def close_conns_fields close_conns_calls
      split: option.splits)

lemma Close_again: "closed c \<Longrightarrow> Close c = (Return None, c)"
  by (simp add: Close_def)

text \<open>A Go map holds a key once: counting over it is counting keys.\<close>

lemma length_filter_card:
  assumes "distinct (map fst xs)"
  shows "length (filter (\<lambda>(k, e). P e) xs) = card {k. \<exists>e. map_of xs k = Some e \<and> P e}"
  using assms
proof (induction xs)
  case Nil
  then show ?case by simp
next
  case (Cons x xs)
  obtain k e where x: "x = (k, e)" by (cases x)
  from Cons.prems x have k: "k \<notin> fst ` set xs" and d: "distinct (map fst xs)" by auto
  let ?S = "{k'. \<exists>e'. map_of xs k' = Some e' \<and> P e'}"
  let ?T = "{k'. \<exists>e'. map_of (x # xs) k' = Some e' \<and> P e'}"
  have fin: "finite ?S"
    by (rule finite_subset[of _ "dom (map_of xs)"]) (auto simp: finite_dom_map_of)
  have notin: "k \<notin> ?S" using k by (auto dest: map_of_SomeD intro: rev_image_eqI)
  have eq: "?T = (if P e then insert k ?S else ?S)"
    using x k by (auto dest: map_of_SomeD intro: rev_image_eqI)
  have "length (filter (\<lambda>(k, e). P e) (x # xs)) =
      (if P e then Suc (length (filter (\<lambda>(k, e). P e) xs))
       else length (filter (\<lambda>(k, e). P e) xs))"
    using x by simp
  also have "\<dots> = (if P e then Suc (card ?S) else card ?S)"
    by (simp only: Cons.IH[OF d])
  also have "\<dots> = card ?T"
    by (subst eq) (simp add: card_insert_disjoint[OF fin notin])
  finally show ?case .
qed

lemma length_card_dom: "distinct (map fst xs) \<Longrightarrow> length xs = card (dom (map_of xs))"
  by (metis dom_map_of_conv_image_fst distinct_card length_map list.set_map)

lemma online_count_card:
  assumes "distinct (map fst (index c))"
  shows "online_count c =
    card {k. \<exists>e r. map_of (index c) k = Some e \<and> Conn e = Some r \<and> GetState c r = Online}"
proof -
  have "online_count c = card {k. \<exists>e. map_of (index c) k = Some e \<and> is_online c e}"
    unfolding online_count_def by (rule length_filter_card[OF assms])
  also have "{k. \<exists>e. map_of (index c) k = Some e \<and> is_online c e} =
      {k. \<exists>e r. map_of (index c) k = Some e \<and> Conn e = Some r \<and> GetState c r = Online}"
    by (auto simp: is_online_def split: option.splits)
  finally show ?thesis .
qed

lemma online_count_explorer: "online_count (c\<lparr>explorer := x\<rparr>) = online_count c"
  by (simp add: online_count_def is_online_def GetState_def cong: option.case_cong)

lemma Pessimize_success:
  assumes "Pessimize p ep c = (Return None, c')" and "explorer c = Some ex"
  shows "\<exists>e r. map_of (index c) (NodeID ep) = Some e \<and> Conn e = Some r \<and> GetState c' r = Banned
     \<and> index c' = index c
     \<and> explorer c' = Some (ex\<lparr>force_calls := force_calls ex +
          (if online_count c' * 2 < length (index c') then 1 else 0)\<rparr>)"
  using assms
  by (auto simp: Pessimize_def Let_def SetState_def GetState_def online_count_explorer
      online_count_def is_online_def split: option.splits if_splits)

lemma Pessimize_keeps: "closed (snd (Pessimize p ep c)) = closed c \<and> index (snd (Pessimize p ep c)) = index c"
  by (simp add: Pessimize_def SetState_def Let_def split: option.splits)

text \<open>
  An entry without a connection whose handle the balancer holds: \<^verbatim>\<open>Pessimize\<close> calls
  \<^verbatim>\<open>entry.Conn.Runtime()\<close> on it. \<^verbatim>\<open>Update\<close> treats the same entry as a broken
  invariant and panics by name.
\<close>

lemma Pessimize_nil_conn:
  assumes "\<not> closed c" and "map_of (index c) (NodeID ep) = Some e" and "Handle e = Some h"
    and "balancer_Contains p (balancer c) h" and "Conn e = None"
  shows "Pessimize p ep c = (Panic nil_dereference, c)"
  using assms by (simp add: Pessimize_def)




lemma has_conns_conns: "has_conns (c\<lparr>conns := f\<rparr>) = has_conns c"
  by (simp add: has_conns_def)







text \<open>
  On an entry without a connection, which no such registry holds, \<^verbatim>\<open>Remove\<close> skips the
  close (line 276) and then calls \<^verbatim>\<open>entry.Conn.Runtime()\<close> on the nil connection (line
  280).
\<close>

lemma Remove_nil_conn:
  assumes "\<not> closed c" and "map_of (index c) (NodeID ep) = Some e"
    and "entry_RemoveFrom p e (balancer c) = Inr (e', b)" and "Conn e' = None"
  shows "Remove p ep c = (Panic nil_dereference,
           c\<lparr>balancer := b, ready := ready c - 1, index := AList.delete (NodeID ep) (index c)\<rparr>)"
  using assms by (simp add: Remove_def)

lemma one_node_value:
  "one_node =
    \<lparr>balancer = [(0, 0, \<lparr>Info_LoadFactor = 0, Info_Local = False\<rparr>)],
     explorer = Some no_calls,
     index = [(1, \<lparr>Info = \<lparr>Info_LoadFactor = 0, Info_Local = False\<rparr>, Conn = Some 0,
                  Handle = Some 0\<rparr>)],
     ready = 1, wait = None, closed = False,
     conns = (\<lambda>_. \<lparr>runtime_state = OtherState 0, close_calls = 0\<rparr>)
               (0 := \<lparr>runtime_state = Online, close_calls = 0\<rparr>),
     next_conn = 1, closed_chans = []\<rparr>"
  by (simp add: one_node_def registry_evals)

section \<open>Get\<close>

text \<open>
  C1. The claim: a \<^verbatim>\<open>Get\<close> on a registry that is not closed, with no node-affinity hint
  and a balancer whose \<^verbatim>\<open>Next\<close> yields no connection, returns \<^verbatim>\<open>ErrClusterEmpty\<close>.
  The code assigns \<^verbatim>\<open>err = ErrClusterEmpty\<close> and then evaluates \<^verbatim>\<open>conn.Endpoint()\<close> on
  the nil connection for the trace callback (line 138): the call panics and returns
  nothing. The theorem states what the code does.
\<close>

theorem Get_without_connection_panics:
  assumes "\<not> closed c" and "balancer_Next p (balancer c) = (None, b)"
  shows "Get p None c = (Panic nil_dereference, c\<lparr>balancer := b\<rparr>)
       \<and> fst (Get p None c) \<noteq> Return (None, Some ErrClusterEmpty)"
  using assms by (simp add: Get_def)

theorem Get_without_connection_panics_witness:
  "\<not> closed (New ([] :: listed))
   \<and> balancer_Next (listed_ports Online) (balancer (New [])) = (None, [])
   \<and> Get (listed_ports Online) None (New []) = (Panic nil_dereference, New [])"
  using Get_without_connection_panics [of "New ([] :: listed)" "listed_ports Online" "[]"]
  by (simp add: New_def listed_ports_def)

section \<open>Pessimize\<close>

text \<open>
  C2. \<^verbatim>\<open>Pessimize\<close> returns \<^verbatim>\<open>ErrClusterClosed\<close> on a closed registry; otherwise
  \<^verbatim>\<open>ErrUnknownEndpoint\<close> when the endpoint's NodeID is not in the mapping; otherwise
  \<^verbatim>\<open>ErrNilBalancerElement\<close> when the entry's handle is nil; otherwise
  \<^verbatim>\<open>ErrUnknownBalancerElement\<close> when the balancer does not contain the handle; each of
  the four distinct errors wrapped by \<^verbatim>\<open>fmt.Errorf("cluster: pessimize failed: %w", _)\<close>,
  the registry unchanged. When none of these apply, the state of the entry's
  connection \<open>r\<close> is Banned afterwards and the call returns no error. (\<^verbatim>\<open>Insert\<close>
  stores every entry with the connection it built, and the entry has one here.)
\<close>

theorem Pessimize_outcomes:
  "(closed c \<longrightarrow>
      Pessimize p ep c = (Return (Some (Errorf pessimize_failed ErrClusterClosed)), c))
 \<and> (\<not> closed c \<and> map_of (index c) (NodeID ep) = None \<longrightarrow>
      Pessimize p ep c = (Return (Some (Errorf pessimize_failed ErrUnknownEndpoint)), c))
 \<and> (\<not> closed c \<and> map_of (index c) (NodeID ep) = Some e \<and> Handle e = None \<longrightarrow>
      Pessimize p ep c = (Return (Some (Errorf pessimize_failed ErrNilBalancerElement)), c))
 \<and> (\<not> closed c \<and> map_of (index c) (NodeID ep) = Some e \<and> Handle e = Some h
      \<and> \<not> balancer_Contains p (balancer c) h \<longrightarrow>
      Pessimize p ep c = (Return (Some (Errorf pessimize_failed ErrUnknownBalancerElement)), c))
 \<and> (\<not> closed c \<and> map_of (index c) (NodeID ep) = Some e \<and> Handle e = Some h
      \<and> balancer_Contains p (balancer c) h \<and> Conn e = Some r \<longrightarrow>
      fst (Pessimize p ep c) = Return None \<and> GetState (snd (Pessimize p ep c)) r = Banned)
 \<and> distinct [ErrClusterClosed, ErrUnknownEndpoint, ErrNilBalancerElement,
      ErrUnknownBalancerElement]"
  by (simp add: Pessimize_def SetState_def GetState_def Let_def split: option.splits)

theorem Pessimize_outcomes_witness:
  "Pessimize (listed_ports Online) (node 1) (snd (Close one_node))
     = (Return (Some (Errorf pessimize_failed ErrClusterClosed)), snd (Close one_node))
 \<and> Pessimize (listed_ports Online) (node 2) one_node
     = (Return (Some (Errorf pessimize_failed ErrUnknownEndpoint)), one_node)
 \<and> Pessimize (listed_ports Online) (node 1)
       (one_node\<lparr>index := map (\<lambda>(k, e). (k, e\<lparr>Handle := None\<rparr>)) (index one_node)\<rparr>)
     = (Return (Some (Errorf pessimize_failed ErrNilBalancerElement)),
        one_node\<lparr>index := map (\<lambda>(k, e). (k, e\<lparr>Handle := None\<rparr>)) (index one_node)\<rparr>)
 \<and> Pessimize (listed_ports Online) (node 1) (one_node\<lparr>balancer := []\<rparr>)
     = (Return (Some (Errorf pessimize_failed ErrUnknownBalancerElement)),
        one_node\<lparr>balancer := []\<rparr>)
 \<and> fst (Pessimize (listed_ports Online) (node 1) one_node) = Return None
 \<and> GetState one_node 0 = Online
 \<and> GetState (snd (Pessimize (listed_ports Online) (node 1) one_node)) 0 = Banned"
  using Pessimize_outcomes [of "snd (Close one_node)" "listed_ports Online" "node 1"]
    Pessimize_outcomes [of one_node "listed_ports Online" "node 2"]
    Pessimize_outcomes [of
      "one_node\<lparr>index := map (\<lambda>(k, e). (k, e\<lparr>Handle := None\<rparr>)) (index one_node)\<rparr>"
      "listed_ports Online" "node 1"
      "\<lparr>Info = \<lparr>Info_LoadFactor = 0, Info_Local = False\<rparr>, Conn = Some 0, Handle = None\<rparr>"]
    Pessimize_outcomes [of "one_node\<lparr>balancer := []\<rparr>" "listed_ports Online" "node 1"
      "\<lparr>Info = \<lparr>Info_LoadFactor = 0, Info_Local = False\<rparr>, Conn = Some 0, Handle = Some 0\<rparr>"
      0]
    Pessimize_outcomes [of one_node "listed_ports Online" "node 1"
      "\<lparr>Info = \<lparr>Info_LoadFactor = 0, Info_Local = False\<rparr>, Conn = Some 0, Handle = Some 0\<rparr>"
      0 0]
  by (simp add: Close_closes one_node_value GetState_def NodeID_def node_def listed_ports_def)

text \<open>
  C3, as amended. The claim: whenever \<^verbatim>\<open>Pessimize\<close> succeeds on a registry with an
  explorer, \<^verbatim>\<open>Force\<close> is called exactly when twice the count of Online entries, taken
  after the ban, is less than the number of entries; and after inserting 4 nodes and
  pessimizing 3 of them \<^verbatim>\<open>Force\<close> is called exactly once, at the third call. The first
  part holds: the connection of the entry is Banned afterwards, and \<^verbatim>\<open>Force\<close> is called
  once more exactly when twice the number of keys whose entry has a connection in state
  Online, counted after the ban, is less than the number of keys of the mapping (which
  holds every key once). \<^verbatim>\<open>Insert\<close> does not touch the state of the connection it
  stores; \<^verbatim>\<open>Update\<close> sets it to Online (line 239). So the scenario holds once each of
  the four inserted nodes was updated, whatever state \<open>s0\<close> a new connection has: every
  \<^verbatim>\<open>Pessimize\<close> of nodes 1, 2 and 3 succeeds, and the count of \<^verbatim>\<open>Force\<close> calls is 0
  before, 0 after the first, 0 after the second and 1 after the third.
\<close>

theorem Pessimize_forces_rediscovery:
  "(distinct (map fst (index c)) \<and> explorer c = Some ex \<and> Pessimize p ep c = (Return None, c') \<longrightarrow>
      (\<exists>e r. map_of (index c) (NodeID ep) = Some e \<and> Conn e = Some r \<and> GetState c' r = Banned)
    \<and> explorer c' = Some (ex\<lparr>force_calls := force_calls ex +
        (if card {k. \<exists>e r. map_of (index c') k = Some e \<and> Conn e = Some r \<and> GetState c' r = Online} * 2
              < card (dom (map_of (index c')))
         then 1 else 0)\<rparr>))
 \<and> map (\<lambda>ns. map_option force_calls
        (explorer (pessimize_all s0 ns (updated_registry s0 [1, 2, 3, 4]))))
     [[], [1], [1, 2], [1, 2, 3]] = [Some 0, Some 0, Some 0, Some 1]
 \<and> map (\<lambda>(ns, n). fst (Pessimize (listed_ports s0) (node n)
        (pessimize_all s0 ns (updated_registry s0 [1, 2, 3, 4]))))
     [([], 1), ([1], 2), ([1, 2], 3)] = [Return None, Return None, Return None]"
proof -
  have general: "(\<exists>e r. map_of (index c) (NodeID ep) = Some e \<and> Conn e = Some r \<and> GetState c' r = Banned)
    \<and> explorer c' = Some (ex\<lparr>force_calls := force_calls ex +
        (if card {k. \<exists>e r. map_of (index c') k = Some e \<and> Conn e = Some r \<and> GetState c' r = Online} * 2
              < card (dom (map_of (index c')))
         then 1 else 0)\<rparr>)"
    if d: "distinct (map fst (index c))" and ex: "explorer c = Some ex"
      and ok: "Pessimize p ep c = (Return None, c')"
  proof -
    from Pessimize_success [OF ok ex] obtain e r where
      e: "map_of (index c) (NodeID ep) = Some e" "Conn e = Some r" "GetState c' r = Banned"
      and i: "index c' = index c"
      and f: "explorer c' = Some (ex\<lparr>force_calls := force_calls ex +
          (if online_count c' * 2 < length (index c') then 1 else 0)\<rparr>)"
      by blast
    have d': "distinct (map fst (index c'))" using d i by simp
    show ?thesis
      using e f by (auto simp: online_count_card [OF d'] length_card_dom [OF d'])
  qed
  have s1: "map (\<lambda>ns. map_option force_calls
        (explorer (pessimize_all s0 ns (updated_registry s0 [1, 2, 3, 4]))))
     [[], [1], [1, 2], [1, 2, 3]] = [Some 0, Some 0, Some 0, Some 1]"
    by (simp add: registry_evals)
  have s2: "map (\<lambda>(ns, n). fst (Pessimize (listed_ports s0) (node n)
        (pessimize_all s0 ns (updated_registry s0 [1, 2, 3, 4]))))
     [([], 1), ([1], 2), ([1, 2], 3)] = [Return None, Return None, Return None]"
    by (simp add: registry_evals)
  show ?thesis using general s1 s2 by blast
qed

theorem Pessimize_forces_rediscovery_witness:
  "distinct (map fst (index (pessimize_all (OtherState 0) [1, 2]
      (updated_registry (OtherState 0) [1, 2, 3, 4]))))
 \<and> explorer (pessimize_all (OtherState 0) [1, 2] (updated_registry (OtherState 0) [1, 2, 3, 4]))
     = Some no_calls
 \<and> fst (Pessimize (listed_ports (OtherState 0)) (node 3)
        (pessimize_all (OtherState 0) [1, 2] (updated_registry (OtherState 0) [1, 2, 3, 4])))
     = Return None
 \<and> explorer (snd (Pessimize (listed_ports (OtherState 0)) (node 3)
        (pessimize_all (OtherState 0) [1, 2] (updated_registry (OtherState 0) [1, 2, 3, 4]))))
     = Some (no_calls\<lparr>force_calls := 1\<rparr>)"
  using Pessimize_forces_rediscovery [of
      "pessimize_all (OtherState 0) [1, 2] (updated_registry (OtherState 0) [1, 2, 3, 4])"
      no_calls "listed_ports (OtherState 0)" "node 3"
      "snd (Pessimize (listed_ports (OtherState 0)) (node 3)
        (pessimize_all (OtherState 0) [1, 2] (updated_registry (OtherState 0) [1, 2, 3, 4])))"
      "OtherState 0"]
  by (simp add: registry_evals)

text \<open>
  The scenario of C3 as stated, with \<^verbatim>\<open>Insert\<close> alone: where a connection that \<^verbatim>\<open>conn.New\<close>
  built is in any state but Online, no inserted node counts as online, and \<^verbatim>\<open>Force\<close> is
  called at the first \<^verbatim>\<open>Pessimize\<close> and at each of the three.
\<close>

theorem Pessimize_scenario_not_online:
  "(\<forall>n. map (\<lambda>ns. map_option force_calls
        (explorer (pessimize_all (OtherState n) ns (registry_of (OtherState n) [1, 2, 3, 4]))))
     [[], [1], [1, 2], [1, 2, 3]] = [Some 0, Some 1, Some 2, Some 3])
 \<and> map (\<lambda>ns. map_option force_calls
        (explorer (pessimize_all Banned ns (registry_of Banned [1, 2, 3, 4]))))
     [[], [1], [1, 2], [1, 2, 3]] = [Some 0, Some 1, Some 2, Some 3]"
  by (simp add: registry_evals)

section \<open>After Close\<close>

text \<open>
  C4. \<^verbatim>\<open>Close\<close> leaves the registry closed, whatever its state before. From a closed
  registry, after any sequence of calls the registry is still closed, \<^verbatim>\<open>Insert\<close>,
  \<^verbatim>\<open>Update\<close> and \<^verbatim>\<open>Remove\<close> return without changing the mapping, the ready counter
  or the balancer, \<^verbatim>\<open>Get\<close> returns \<^verbatim>\<open>ErrClusterClosed\<close>, and \<^verbatim>\<open>Pessimize\<close> returns
  \<^verbatim>\<open>ErrClusterClosed\<close> wrapped.
\<close>

theorem closed_is_final:
  "closed (snd (Close c0))
 \<and> (closed c \<longrightarrow>
      closed (run p calls c)
    \<and> fst (Insert p ep (run p calls c)) = Return ()
    \<and> index (snd (Insert p ep (run p calls c))) = index (run p calls c)
    \<and> ready (snd (Insert p ep (run p calls c))) = ready (run p calls c)
    \<and> balancer (snd (Insert p ep (run p calls c))) = balancer (run p calls c)
    \<and> Update p ep (run p calls c) = (Return (), run p calls c)
    \<and> Remove p ep (run p calls c) = (Return (), run p calls c)
    \<and> Get p h (run p calls c) = (Return (None, Some ErrClusterClosed), run p calls c)
    \<and> Pessimize p ep (run p calls c) =
        (Return (Some (Errorf pessimize_failed ErrClusterClosed)), run p calls c))"
proof -
  have "closed (run p calls c)" if "closed c"
    using that by (rule run_closed)
  then show ?thesis
    by (simp add: Close_closes closed_calls)
qed

theorem closed_is_final_witness:
  "closed (snd (Close one_node))
 \<and> closed (run (listed_ports Online) [CallInsert (node 2), CallSetExplorer None, CallClose]
      (snd (Close one_node)))
 \<and> Get (listed_ports Online) (Some 1) (snd (Close one_node))
      = (Return (None, Some ErrClusterClosed), snd (Close one_node))
 \<and> index (snd (Insert (listed_ports Online) (node 2) (snd (Close one_node)))) = []
 \<and> \<not> closed one_node"
  using closed_is_final [of one_node "snd (Close one_node)" "listed_ports Online"
      "[CallInsert (node 2), CallSetExplorer None, CallClose]" "node 2" "Some 1"]
    closed_is_final [of one_node "snd (Close one_node)" "listed_ports Online" "[]" "node 2" "Some 1"]
    Close_first(3) [of one_node]
  by (simp add: Close_closes run_closed closed_calls one_node_value)

section \<open>Node affinity\<close>

text \<open>
  C5. On a registry that is not closed, \<^verbatim>\<open>Get\<close> with a node-affinity NodeID that is in
  the mapping returns that entry's connection and leaves the registry, the balancer
  included, as it was; the result is the same whatever state a connection is set to,
  and the same after a \<^verbatim>\<open>Pessimize\<close>. With a NodeID that is not in the mapping,
  \<^verbatim>\<open>Get\<close> does what it does without a hint.
\<close>

theorem Get_node_affinity:
  "(\<not> closed c \<and> map_of (index c) n = Some e \<longrightarrow>
      Get p (Some n) c = (Return (Conn e, None), c)
    \<and> Get p (Some n) (SetState r s c) = (Return (Conn e, None), SetState r s c)
    \<and> Get p (Some n) (snd (Pessimize p ep c)) = (Return (Conn e, None), snd (Pessimize p ep c)))
 \<and> (\<not> closed c \<and> map_of (index c) n = None \<longrightarrow> Get p (Some n) c = Get p None c)"
  using Pessimize_keeps [of p ep c]
  by (simp add: Get_def SetState_def)

theorem Get_node_affinity_witness:
  "\<not> closed one_node
 \<and> Get (listed_ports Online) (Some 1) one_node = (Return (Some 0, None), one_node)
 \<and> fst (Get (listed_ports Online) (Some 1) (snd (Pessimize (listed_ports Online) (node 1) one_node)))
     = Return (Some 0, None)
 \<and> GetState (snd (Pessimize (listed_ports Online) (node 1) one_node)) 0 = Banned
 \<and> Get (listed_ports Online) (Some 1) (one_node\<lparr>balancer := []\<rparr>)
     = (Return (Some 0, None), one_node\<lparr>balancer := []\<rparr>)
 \<and> fst (Get (listed_ports Online) None (one_node\<lparr>balancer := []\<rparr>)) = Panic nil_dereference
 \<and> map_of (index one_node) 2 = None
 \<and> Get (listed_ports Online) (Some 2) one_node = Get (listed_ports Online) None one_node
 \<and> Get (listed_ports Online) None one_node = (Return (Some 0, None), one_node)"
  using Get_node_affinity [of one_node 1
      "\<lparr>Info = \<lparr>Info_LoadFactor = 0, Info_Local = False\<rparr>, Conn = Some 0, Handle = Some 0\<rparr>"
      "listed_ports Online" 0 Banned "node 1"]
    Get_node_affinity [of "one_node\<lparr>balancer := []\<rparr>" 1
      "\<lparr>Info = \<lparr>Info_LoadFactor = 0, Info_Local = False\<rparr>, Conn = Some 0, Handle = Some 0\<rparr>"
      "listed_ports Online" 0 Banned "node 1"]
    Get_node_affinity [of one_node 2 _ "listed_ports Online" 0 Banned "node 1"]
  by (simp add: one_node_value Get_def Pessimize_def SetState_def GetState_def listed_ports_def
      NodeID_def node_def online_count_def is_online_def no_calls_def Let_def)

section \<open>Close\<close>

text \<open>
  C8. A second \<^verbatim>\<open>Close\<close> returns no error and changes nothing. The first \<^verbatim>\<open>Close\<close> of
  a registry that is not closed, whose \<open>wait\<close> channel (if any) is still open, returns
  no error, marks the registry closed, calls \<^verbatim>\<open>Stop\<close> on the explorer if one is set,
  closes the \<open>wait\<close> channel if there is one, and calls \<^verbatim>\<open>Close\<close> on a connection
  once for each entry that holds it; after the second \<^verbatim>\<open>Close\<close> the counts are the
  same.
\<close>

theorem Close_twice:
  "fst (Close (snd (Close c))) = Return None
 \<and> snd (Close (snd (Close c))) = snd (Close c)
 \<and> (\<not> closed c \<and> (\<forall>ch. wait c = Some ch \<longrightarrow> ch \<notin> set (closed_chans c)) \<longrightarrow>
      fst (Close c) = Return None
    \<and> closed (snd (Close c))
    \<and> explorer (snd (Close c)) =
        map_option (\<lambda>ex. ex\<lparr>stop_calls := stop_calls ex + 1\<rparr>) (explorer c)
    \<and> wait (snd (Close c)) = None
    \<and> closed_chans (snd (Close c)) =
        (case wait c of None \<Rightarrow> [] | Some ch \<Rightarrow> [ch]) @ closed_chans c
    \<and> (\<forall>r. close_calls (conns (snd (Close c)) r) =
          close_calls (conns c r) + count_list (map (Conn \<circ> snd) (index c)) (Some r))
    \<and> (\<forall>r. close_calls (conns (snd (Close (snd (Close c)))) r) =
          close_calls (conns c r) + count_list (map (Conn \<circ> snd) (index c)) (Some r)))"
proof -
  have again: "Close (snd (Close c)) = (Return None, snd (Close c))"
    by (rule Close_again) (rule Close_closes)
  show ?thesis
    by (simp add: again Close_closes Close_first)
qed

theorem Close_twice_witness:
  "\<not> closed (registry_of Online [1, 2]\<lparr>wait := Some 7\<rparr>)
 \<and> wait (registry_of Online [1, 2]\<lparr>wait := Some 7\<rparr>) = Some 7
 \<and> 7 \<notin> set (closed_chans (registry_of Online [1, 2]\<lparr>wait := Some 7\<rparr>))
 \<and> fst (Close (registry_of Online [1, 2]\<lparr>wait := Some 7\<rparr>)) = Return None
 \<and> closed_chans (snd (Close (registry_of Online [1, 2]\<lparr>wait := Some 7\<rparr>))) = [7]
 \<and> map (\<lambda>r. close_calls (conns (snd (Close (registry_of Online [1, 2]\<lparr>wait := Some 7\<rparr>))) r))
      [0, 1, 2] = [1, 1, 0]
 \<and> map (\<lambda>r. close_calls (conns (snd (Close (snd (Close (registry_of Online [1, 2]\<lparr>wait := Some 7\<rparr>))))) r))
      [0, 1, 2] = [1, 1, 0]
 \<and> map_option stop_calls (explorer (snd (Close (snd (Close (registry_of Online [1, 2]\<lparr>wait := Some 7\<rparr>))))))
      = Some 1"
  using Close_twice [of "registry_of Online [1, 2]\<lparr>wait := Some 7\<rparr>"]
  by (simp add: registry_evals)

section \<open>Contract violations\<close>

text \<open>
  C9. On a registry that is not closed, \<^verbatim>\<open>Insert\<close> of a NodeID that is in the mapping,
  \<^verbatim>\<open>Update\<close> and \<^verbatim>\<open>Remove\<close> of a NodeID that is not, and \<^verbatim>\<open>Update\<close> of an entry
  without a connection panic, and leave the mapping, the ready counter and the balancer
  as they were.
\<close>

theorem contract_violations_panic:
  "(\<not> closed c \<and> map_of (index c) (NodeID ep) = Some e \<longrightarrow>
      fst (Insert p ep c) = Panic ''ydb: can't insert already existing endpoint''
    \<and> index (snd (Insert p ep c)) = index c
    \<and> ready (snd (Insert p ep c)) = ready c
    \<and> balancer (snd (Insert p ep c)) = balancer c)
 \<and> (\<not> closed c \<and> map_of (index c) (NodeID ep) = None \<longrightarrow>
      Update p ep c = (Panic ''ydb: can't update not-existing endpoint'', c)
    \<and> Remove p ep c = (Panic ''ydb: can't remove not-existing endpoint'', c))
 \<and> (\<not> closed c \<and> map_of (index c) (NodeID ep) = Some e \<and> Conn e = None \<longrightarrow>
      Update p ep c = (Panic ''ydb: cluster entry with nil conn'', c))"
  by (simp add: Insert_def conn_New_def Update_def Remove_def)

theorem contract_violations_panic_witness:
  "\<not> closed one_node
 \<and> fst (Insert (listed_ports Online) (node 1) one_node)
     = Panic ''ydb: can't insert already existing endpoint''
 \<and> index (snd (Insert (listed_ports Online) (node 1) one_node)) = index one_node
 \<and> Update (listed_ports Online) (node 2) one_node
     = (Panic ''ydb: can't update not-existing endpoint'', one_node)
 \<and> Remove (listed_ports Online) (node 2) one_node
     = (Panic ''ydb: can't remove not-existing endpoint'', one_node)
 \<and> Update (listed_ports Online) (node 1)
       (one_node\<lparr>index := map (\<lambda>(k, e). (k, e\<lparr>Conn := None\<rparr>)) (index one_node)\<rparr>)
     = (Panic ''ydb: cluster entry with nil conn'',
        one_node\<lparr>index := map (\<lambda>(k, e). (k, e\<lparr>Conn := None\<rparr>)) (index one_node)\<rparr>)"
  using contract_violations_panic [of one_node "node 1"
      "\<lparr>Info = \<lparr>Info_LoadFactor = 0, Info_Local = False\<rparr>, Conn = Some 0, Handle = Some 0\<rparr>"
      "listed_ports Online"]
    contract_violations_panic [of one_node "node 2" _ "listed_ports Online"]
    contract_violations_panic [of
      "one_node\<lparr>index := map (\<lambda>(k, e). (k, e\<lparr>Conn := None\<rparr>)) (index one_node)\<rparr>" "node 1"
      "\<lparr>Info = \<lparr>Info_LoadFactor = 0, Info_Local = False\<rparr>, Conn = None, Handle = Some 0\<rparr>"
      "listed_ports Online"]
  by (simp add: one_node_value NodeID_def node_def)

section \<open>Remove\<close>



section \<open>Comparing and diffing: auxiliary facts\<close>

lemma compare_sub:
  "(ucast (a :: 32 word) :: 64 word) - ucast (b :: 32 word) = word_of_int (uint a - uint b)"
  by (simp only: ucast_eq wi_hom_sub)

text \<open>With a 64-bit \<^verbatim>\<open>int\<close> the comparator is the difference of the two identifiers.\<close>

lemma compare_Int64: "compareEndpoints Int64 a b = uint (ID a) - uint (ID b)"
proof -
  have r: "- (2 ^ 63) \<le> x - y \<and> x - y < 2 ^ 63"
    if "0 \<le> x" "x < 2 ^ 32" "0 \<le> y" "y < 2 ^ 32" for x y :: int
    using that by simp
  have "sint ((ucast (ID a) :: 64 word) - ucast (ID b)) =
      signed_take_bit 63 (uint (ID a) - uint (ID b))"
    by (simp only: compare_sub sint_sbintrunc') simp
  also have "\<dots> = uint (ID a) - uint (ID b)"
    using r [of "uint (ID a)" "uint (ID b)"] uint_lt2p [of "ID a"] uint_lt2p [of "ID b"]
    by (simp add: signed_take_bit_int_eq_self)
  finally show ?thesis
    by (simp only: compareEndpoints_def to_int_def arch.case)
qed

lemma ucast_word_of_int: "(ucast (word_of_int k :: 64 word) :: 32 word) = word_of_int k"
proof -
  have "(ucast (word_of_int k :: 64 word) :: 32 word) = word_of_int (take_bit 64 k)"
    by (simp only: ucast_eq uint_word_of_int_eq) simp
  also have "\<dots> = word_of_int k"
    by (simp add: word_of_int_eq_iff)
  finally show ?thesis .
qed

text \<open>With a 32-bit \<^verbatim>\<open>int\<close> it is the difference modulo \<open>2 ^ 32\<close>, read as a signed number.\<close>

lemma compare_Int32: "compareEndpoints Int32 a b = sint (ID a - ID b)"
proof -
  have "(ucast ((ucast (ID a) :: 64 word) - ucast (ID b)) :: 32 word) =
      word_of_int (uint (ID a) - uint (ID b))"
    by (simp only: compare_sub ucast_word_of_int)
  also have "\<dots> = ID a - ID b"
    by simp
  finally show ?thesis
    by (simp only: compareEndpoints_def to_int_def arch.case)
qed

lemma compare_zero: "compareEndpoints w a b = 0 \<longleftrightarrow> ID a = ID b"
proof (cases w)
  case Int32
  then show ?thesis by (simp add: compare_Int32 signed_eq_0_iff)
next
  case Int64
  then show ?thesis by (simp add: compare_Int64 word_uint_eq_iff)
qed

lemma compare_sign:
  "(compareEndpoints Int64 a b < 0) = (ID a < ID b)"
  "(0 < compareEndpoints Int64 a b) = (ID b < ID a)"
  by (simp_all add: compare_Int64 word_less_def)

lemma del_tail_done: "a \<le> i \<Longrightarrow> del_tail a i j = []"
  by (subst del_tail.simps) simp

lemma add_tail_done: "b \<le> j \<Longrightarrow> add_tail b i j = []"
  by (subst add_tail.simps) simp

lemma del_tail_by: "i \<le> length xs \<Longrightarrow> del_tail (length xs) i j = merge_by cmp i j (drop i xs) []"
proof (induction "length xs - i" arbitrary: i)
  case 0
  then show ?case by (subst del_tail.simps) simp
next
  case (Suc n)
  then have lt: "i < length xs" by simp
  have "del_tail (length xs) (Suc i) j = merge_by cmp (Suc i) j (drop (Suc i) xs) []"
    using Suc by (intro Suc.hyps(1)) simp_all
  then show ?case using lt
    by (subst del_tail.simps) (simp flip: Cons_nth_drop_Suc)
qed

lemma add_tail_by: "j \<le> length ys \<Longrightarrow> add_tail (length ys) i j = merge_by cmp i j [] (drop j ys)"
proof (induction "length ys - j" arbitrary: j)
  case 0
  then show ?case by (subst add_tail.simps) simp
next
  case (Suc n)
  then have lt: "j < length ys" by simp
  have "add_tail (length ys) i (Suc j) = merge_by cmp i (Suc j) [] (drop (Suc j) ys)"
    using Suc by (intro Suc.hyps(1)) simp_all
  then show ?case using lt
    by (subst add_tail.simps) (simp flip: Cons_nth_drop_Suc)
qed

lemma diffslice_from_by:
  assumes "i \<le> length cur" and "j \<le> length nxt"
  shows "diffslice_from (length cur) (length nxt) (\<lambda>i j. cmp (cur ! i) (nxt ! j)) i j
       = merge_by cmp i j (drop i cur) (drop j nxt)"
  using assms
proof (induction "(length cur - i) + (length nxt - j)" arbitrary: i j rule: less_induct)
  case less
  let ?cmp = "\<lambda>i j. cmp (cur ! i) (nxt ! j)"
  show ?case
  proof (cases "i < length cur \<and> j < length nxt")
    case True
    have di: "cur ! i # drop (Suc i) cur = drop i cur"
      and dj: "nxt ! j # drop (Suc j) nxt = drop j nxt"
      using True by (simp_all add: Cons_nth_drop_Suc)
    have r1: "diffslice_from (length cur) (length nxt) ?cmp (Suc i) j =
        merge_by cmp (Suc i) j (drop (Suc i) cur) (drop j nxt)"
      using True less.prems by (intro less.hyps) (simp_all, arith?)
    have r2: "diffslice_from (length cur) (length nxt) ?cmp i (Suc j) =
        merge_by cmp i (Suc j) (drop i cur) (drop (Suc j) nxt)"
      using True less.prems by (intro less.hyps) (simp_all, arith?)
    have r3: "diffslice_from (length cur) (length nxt) ?cmp (Suc i) (Suc j) =
        merge_by cmp (Suc i) (Suc j) (drop (Suc i) cur) (drop (Suc j) nxt)"
      using True less.prems by (intro less.hyps) (simp_all, arith?)
    have L: "diffslice_from (length cur) (length nxt) ?cmp i j =
        (if ?cmp i j < 0 then Del i j # diffslice_from (length cur) (length nxt) ?cmp (Suc i) j
         else if ?cmp i j > 0 then Add i j # diffslice_from (length cur) (length nxt) ?cmp i (Suc j)
         else Eq i j # diffslice_from (length cur) (length nxt) ?cmp (Suc i) (Suc j))"
      using True by (subst diffslice_from.simps) simp
    have "merge_by cmp i j (cur ! i # drop (Suc i) cur) (nxt ! j # drop (Suc j) nxt) =
        (if ?cmp i j < 0 then Del i j # merge_by cmp (Suc i) j (drop (Suc i) cur) (nxt ! j # drop (Suc j) nxt)
         else if ?cmp i j > 0 then Add i j # merge_by cmp i (Suc j) (cur ! i # drop (Suc i) cur) (drop (Suc j) nxt)
         else Eq i j # merge_by cmp (Suc i) (Suc j) (drop (Suc i) cur) (drop (Suc j) nxt))"
      by simp
    then have R: "merge_by cmp i j (drop i cur) (drop j nxt) =
        (if ?cmp i j < 0 then Del i j # merge_by cmp (Suc i) j (drop (Suc i) cur) (drop j nxt)
         else if ?cmp i j > 0 then Add i j # merge_by cmp i (Suc j) (drop i cur) (drop (Suc j) nxt)
         else Eq i j # merge_by cmp (Suc i) (Suc j) (drop (Suc i) cur) (drop (Suc j) nxt))"
      by (simp only: di dj)
    show ?thesis by (simp only: L R r1 r2 r3)
  next
    case False
    have L: "diffslice_from (length cur) (length nxt) ?cmp i j =
        del_tail (length cur) i j @ add_tail (length nxt) (if i < length cur then length cur else i) j"
      by (subst diffslice_from.simps) (simp only: False if_False)
    show ?thesis
    proof (cases "i < length cur")
      case True
      with False less.prems have "j = length nxt" by simp
      then show ?thesis using True less.prems unfolding L
        by (simp add: del_tail_by add_tail_done)
    next
      case False
      with less.prems have "i = length cur" by simp
      then show ?thesis using less.prems unfolding L
        by (simp add: add_tail_by del_tail_done)
    qed
  qed
qed

lemma merge_by_spec: "merge_by (compareEndpoints Int64) i j xs ys = merge_spec i j xs ys"
proof (induction i j xs ys rule: merge_spec.induct)
  case (4 i j x xs y ys)
  show ?case
  proof (cases "ID x = ID y")
    case True
    then show ?thesis using 4 by (simp add: compare_sign)
  next
    case False
    show ?thesis
    proof (cases "ID x < ID y")
      case True
      then show ?thesis using 4 False by (simp add: compare_sign)
    next
      case ge: False
      then have "ID y < ID x" using False by simp
      then show ?thesis using 4 False ge by (simp add: compare_sign)
    qed
  qed
qed simp_all

lemma del_tail_counts:
  "length (filter is_Del (del_tail a i j)) = a - i \<and> filter is_Add (del_tail a i j) = [] \<and> filter is_Eq (del_tail a i j) = []"
proof (induction "a - i" arbitrary: i)
  case 0
  then show ?case by (simp add: del_tail_done)
next
  case (Suc n)
  then have IH: "length (filter is_Del (del_tail a (Suc i) j)) = a - Suc i \<and> filter is_Add (del_tail a (Suc i) j) = [] \<and> filter is_Eq (del_tail a (Suc i) j) = []"
    by (intro Suc.hyps(1)) simp
  have lt: "i < a" and ar: "Suc (a - Suc i) = a - i" using Suc.hyps(2) by arith+
  have L: "del_tail a i j = Del i j # del_tail a (Suc i) j"
    using lt by (subst del_tail.simps) simp
  show ?case using IH ar by (simp add: L is_Del_def is_Add_def is_Eq_def)
qed

lemma add_tail_counts:
  "length (filter is_Add (add_tail b i j)) = b - j \<and> filter is_Del (add_tail b i j) = [] \<and> filter is_Eq (add_tail b i j) = []"
proof (induction "b - j" arbitrary: j)
  case 0
  then show ?case by (simp add: add_tail_done)
next
  case (Suc n)
  then have IH: "length (filter is_Add (add_tail b i (Suc j))) = b - Suc j \<and> filter is_Del (add_tail b i (Suc j)) = [] \<and> filter is_Eq (add_tail b i (Suc j)) = []"
    by (intro Suc.hyps(1)) simp
  have lt: "j < b" and ar: "Suc (b - Suc j) = b - j" using Suc.hyps(2) by arith+
  have L: "add_tail b i j = Add i j # add_tail b i (Suc j)"
    using lt by (subst add_tail.simps) simp
  show ?case using IH ar by (simp add: L is_Del_def is_Add_def is_Eq_def)
qed

lemma diffslice_from_counts:
  assumes nz: "\<forall>i'<a. \<forall>j'<b. cmp i' j' \<noteq> 0"
  shows "length (filter is_Del (diffslice_from a b cmp i j)) = a - i
       \<and> length (filter is_Add (diffslice_from a b cmp i j)) = b - j
       \<and> filter is_Eq (diffslice_from a b cmp i j) = []"
proof (induction "(a - i) + (b - j)" arbitrary: i j rule: less_induct)
  case less
  show ?case
  proof (cases "i < a \<and> j < b")
    case True
    then have c: "cmp i j \<noteq> 0" using nz by simp
    have ai: "Suc (a - Suc i) = a - i" and bj: "Suc (b - Suc j) = b - j" using True by arith+
    have r1: "length (filter is_Del (diffslice_from a b cmp (Suc i) j)) = a - Suc i
       \<and> length (filter is_Add (diffslice_from a b cmp (Suc i) j)) = b - j
       \<and> filter is_Eq (diffslice_from a b cmp (Suc i) j) = []"
      using True by (intro less.hyps) arith
    have r2: "length (filter is_Del (diffslice_from a b cmp i (Suc j))) = a - i
       \<and> length (filter is_Add (diffslice_from a b cmp i (Suc j))) = b - Suc j
       \<and> filter is_Eq (diffslice_from a b cmp i (Suc j)) = []"
      using True by (intro less.hyps) arith
    show ?thesis
    proof (cases "cmp i j < 0")
      case neg: True
      have L: "diffslice_from a b cmp i j = Del i j # diffslice_from a b cmp (Suc i) j"
        using True neg by (subst diffslice_from.simps) simp
      show ?thesis using r1 ai by (simp add: L is_Del_def is_Add_def is_Eq_def)
    next
      case False
      then have pos: "cmp i j > 0" using c by simp
      have L: "diffslice_from a b cmp i j = Add i j # diffslice_from a b cmp i (Suc j)"
        using True False pos by (subst diffslice_from.simps) simp
      show ?thesis using r2 bj by (simp add: L is_Del_def is_Add_def is_Eq_def)
    qed
  next
    case False
    have L: "diffslice_from a b cmp i j = del_tail a i j @ add_tail b (if i < a then a else i) j"
      by (subst diffslice_from.simps) (simp only: False if_False)
    have "a \<le> i \<or> b \<le> j" using False by arith
    then show ?thesis
    proof
      assume "a \<le> i"
      then show ?thesis unfolding L
        by (simp add: del_tail_done add_tail_counts)
    next
      assume "b \<le> j"
      then show ?thesis unfolding L
        by (simp add: add_tail_done del_tail_counts)
    qed
  qed
qed

lemma diffslice_from_same:
  assumes z: "\<forall>k<n. cmp k k = 0"
  shows "diffslice_from n n cmp i i = map (\<lambda>k. Eq k k) [i..<n]"
proof (induction "n - i" arbitrary: i)
  case 0
  then show ?case by (subst diffslice_from.simps) (simp add: del_tail_done add_tail_done)
next
  case (Suc m)
  then have lt: "i < n" by simp
  have "diffslice_from n n cmp (Suc i) (Suc i) = map (\<lambda>k. Eq k k) [Suc i..<n]"
    using Suc by (intro Suc.hyps(1)) simp
  then show ?case using lt z
    by (subst diffslice_from.simps) (simp add: upt_conv_Cons)
qed

lemma DiffEndpoints_by: "DiffEndpoints w cur nxt = merge_by (compareEndpoints w) 0 0 cur nxt"
  using diffslice_from_by [of 0 cur 0 nxt "compareEndpoints w"]
  by (simp add: DiffEndpoints_def diffslice_def)

lemma DiffEndpoints_same: "DiffEndpoints w xs xs = map (\<lambda>k. Eq k k) [0..<length xs]"
  unfolding DiffEndpoints_def diffslice_def
  by (rule diffslice_from_same) (simp add: compare_zero)

lemma DiffEndpoints_disjoint:
  assumes "\<forall>x\<in>set cur. \<forall>y\<in>set nxt. ID x \<noteq> ID y"
  shows "length (filter is_Del (DiffEndpoints w cur nxt)) = length cur
     \<and> length (filter is_Add (DiffEndpoints w cur nxt)) = length nxt
     \<and> filter is_Eq (DiffEndpoints w cur nxt) = []"
proof -
  have "\<forall>i'<length cur. \<forall>j'<length nxt. compareEndpoints w (cur ! i') (nxt ! j') \<noteq> 0"
    using assms by (simp add: compare_zero)
  from diffslice_from_counts [OF this, of 0 0] show ?thesis
    by (simp add: DiffEndpoints_def diffslice_def)
qed

lemma same_counts: "length (filter is_Eq (map (\<lambda>k. Eq k k) xs)) = length xs
   \<and> filter is_Add (map (\<lambda>k. Eq k k) xs) = [] \<and> filter is_Del (map (\<lambda>k. Eq k k) xs) = []"
  by (induction xs) (simp_all add: is_Eq_def is_Add_def is_Del_def)



section \<open>The comparator\<close>

text \<open>
  C7. The claim: for every pair of endpoints, also of maximal and widely separated
  NodeIDs, \<^verbatim>\<open>compareEndpoints(a, b)\<close> is negative, zero or positive exactly as a's NodeID
  is smaller than, equal to or greater than b's, so that \<^verbatim>\<open>SortEndpoints\<close> sorts by
  NodeID. Where \<^verbatim>\<open>int\<close> has 32 bits the conversion \<^verbatim>\<open>int(...)\<close> cuts the difference of
  two NodeIDs that are \<open>2 ^ 31\<close> or more apart: for the NodeIDs \<open>2 ^ 32 - 1\<close> and 0 the
  result is -1, and 1 the other way round, so the greater compares as the smaller.
  Where \<^verbatim>\<open>int\<close> has 64 bits the claim holds for all NodeIDs, and \<^verbatim>\<open>less\<close> of
  \<^verbatim>\<open>SortEndpoints\<close> is the order of the NodeIDs. On both, the result is zero exactly for
  equal NodeIDs. The theorem states what the code does.
\<close>

theorem compareEndpoints_by_build:
  "compareEndpoints Int32 (node 4294967295) (node 0) = - 1
 \<and> compareEndpoints Int32 (node 0) (node 4294967295) = 1
 \<and> ID (node 0) < ID (node 4294967295)
 \<and> compareEndpoints Int32 a b = sint (ID a - ID b)
 \<and> (compareEndpoints w a b = 0) = (ID a = ID b)
 \<and> (compareEndpoints Int64 a b < 0) = (ID a < ID b)
 \<and> (0 < compareEndpoints Int64 a b) = (ID b < ID a)
 \<and> SortEndpoints sort_Slice Int64 es = sort_Slice (\<lambda>x y. ID x < ID y) es"
proof -
  have "compareEndpoints Int32 (node 4294967295) (node 0) = - 1"
    and "compareEndpoints Int32 (node 0) (node 4294967295) = 1"
    and "ID (node 0) < ID (node 4294967295)"
    by (simp_all add: compare_Int32 node_def)
  then show ?thesis
    by (simp add: compare_Int32 compare_zero compare_sign SortEndpoints_def)
qed

theorem compareEndpoints_by_build_witness:
  "compareEndpoints Int32 (node 2147483648) (node 0) = - 2147483648
 \<and> compareEndpoints Int64 (node 2147483648) (node 0) = 2147483648
 \<and> compareEndpoints Int32 (node 7) (node 7) = 0
 \<and> SortEndpoints (\<lambda>less es. filter (\<lambda>x. less x (node 2)) es) Int64 [node 1, node 3]
     = [node 1]"
  using compareEndpoints_by_build [of "node 2147483648" "node 0" Int32
      "\<lambda>less es. filter (\<lambda>x. less x (node 2)) es" "[node 1, node 3]"]
    compareEndpoints_by_build [of "node 7" "node 7" Int32 "\<lambda>less es. es" "[]"]
  by (simp add: compare_Int32 compare_Int64 node_def)

section \<open>The diff\<close>

text \<open>
  C6. The claim: for every pair of lists sorted by NodeID, \<^verbatim>\<open>DiffEndpoints\<close> is the
  two-pointer merge (equal heads are matched and both sides advance, the smaller head
  is removed on the current side or added on the next side, what is left of either side
  is emitted whole), so that lists with no common NodeID give one \<^verbatim>\<open>del\<close> per element of
  \<open>cur\<close>, one \<^verbatim>\<open>add\<close> per element of \<open>nxt\<close> and no \<^verbatim>\<open>eq\<close>, and identical lists one
  \<^verbatim>\<open>eq\<close> per element and nothing else. For all lists, sorted or not, the code is the
  merge whose heads are compared by \<^verbatim>\<open>compareEndpoints\<close> (\<open>merge_by\<close>), and the counts
  hold. Where \<^verbatim>\<open>int\<close> has 64 bits this is the merge by NodeID of the spec
  (\<open>merge_spec\<close>). Where \<^verbatim>\<open>int\<close> has 32 bits it is not: for the sorted lists of NodeIDs
  \<open>[0, 2 ^ 31 + 1]\<close> and \<open>[2 ^ 31 + 1]\<close> the smaller head 0 compares as the greater, the
  code calls \<^verbatim>\<open>add(0, 0)\<close>, \<^verbatim>\<open>del(0, 1)\<close>, \<^verbatim>\<open>del(1, 1)\<close>, and the node that is in both
  lists is added and removed, not matched. The theorem states what the code does.
\<close>

theorem DiffEndpoints_two_pointer:
  "DiffEndpoints w cur nxt = merge_by (compareEndpoints w) 0 0 cur nxt
 \<and> DiffEndpoints Int64 cur nxt = merge_spec 0 0 cur nxt
 \<and> ((\<forall>x\<in>set cur. \<forall>y\<in>set nxt. ID x \<noteq> ID y) \<longrightarrow>
      length (filter is_Del (DiffEndpoints w cur nxt)) = length cur
    \<and> length (filter is_Add (DiffEndpoints w cur nxt)) = length nxt
    \<and> filter is_Eq (DiffEndpoints w cur nxt) = [])
 \<and> DiffEndpoints w cur cur = map (\<lambda>k. Eq k k) [0..<length cur]
 \<and> length (filter is_Eq (DiffEndpoints w cur cur)) = length cur
 \<and> filter is_Add (DiffEndpoints w cur cur) = []
 \<and> filter is_Del (DiffEndpoints w cur cur) = []
 \<and> DiffEndpoints Int32 [node 0, node 2147483649] [node 2147483649]
     = [Add 0 0, Del 0 1, Del 1 1]
 \<and> merge_spec 0 0 [node 0, node 2147483649] [node 2147483649] = [Del 0 0, Eq 1 0]"
proof -
  have failing: "DiffEndpoints Int32 [node 0, node 2147483649] [node 2147483649]
     = [Add 0 0, Del 0 1, Del 1 1]"
    by (simp add: DiffEndpoints_by compare_Int32 node_def)
  have spec: "merge_spec 0 0 [node 0, node 2147483649] [node 2147483649] = [Del 0 0, Eq 1 0]"
    by (simp add: node_def)
  have by_cmp: "DiffEndpoints w cur nxt = merge_by (compareEndpoints w) 0 0 cur nxt"
    by (rule DiffEndpoints_by)
  have by_id: "DiffEndpoints Int64 cur nxt = merge_spec 0 0 cur nxt"
    by (simp add: DiffEndpoints_by merge_by_spec)
  have same: "DiffEndpoints w cur cur = map (\<lambda>k. Eq k k) [0..<length cur]"
    by (rule DiffEndpoints_same)
  have counts: "length (filter is_Eq (DiffEndpoints w cur cur)) = length cur"
    "filter is_Add (DiffEndpoints w cur cur) = []"
    "filter is_Del (DiffEndpoints w cur cur) = []"
    using same_counts [of "[0..<length cur]"] by (simp_all add: same)
  show ?thesis
    using by_cmp by_id DiffEndpoints_disjoint [of cur nxt w] same counts failing spec
    by blast
qed

theorem DiffEndpoints_two_pointer_witness:
  "DiffEndpoints Int64 [node 1, node 3, node 4] [node 2, node 3, node 5, node 6]
     = [Del 0 0, Add 1 0, Eq 1 1, Del 2 2, Add 3 2, Add 3 3]
 \<and> DiffEndpoints Int32 [node 1, node 3, node 4] [node 2, node 3, node 5, node 6]
     = [Del 0 0, Add 1 0, Eq 1 1, Del 2 2, Add 3 2, Add 3 3]
 \<and> list_all (\<lambda>x. list_all (\<lambda>y. ID x \<noteq> ID y) [node 2, node 3, node 5]) [node 1, node 4]
 \<and> DiffEndpoints Int32 [node 1, node 4] [node 2, node 3, node 5]
     = [Del 0 0, Add 1 0, Add 1 1, Del 1 2, Add 2 2]
 \<and> DiffEndpoints Int32 [node 1, node 4] [node 1, node 4] = [Eq 0 0, Eq 1 1]
 \<and> DiffEndpoints Int64 [node 0, node 2147483649] [node 2147483649] = [Del 0 0, Eq 1 0]"
  using DiffEndpoints_two_pointer [of Int64 "[node 1, node 3, node 4]" "[node 2, node 3, node 5, node 6]"]
    DiffEndpoints_two_pointer [of Int32 "[node 1, node 4]" "[node 2, node 3, node 5]"]
    DiffEndpoints_two_pointer [of Int64 "[node 0, node 2147483649]" "[node 2147483649]"]
  by (simp add: DiffEndpoints_by compare_Int32 compare_Int64 node_def)

end
